theory Spec2Isabelle
  imports Main "HOL-Library.Word"
begin

section \<open>Text: lowercasing and word characters\<close>

text \<open>
  Python strings are modelled as \<open>string\<close> (a list of 8-bit characters), read as ASCII
  text. \<open>str.lower()\<close> maps \<open>A\<close>..\<open>Z\<close> to \<open>a\<close>..\<open>z\<close>; the regular-expression class
  \<open>\w\<close> is the letters, the digits and the underscore. Characters outside ASCII are
  left alone by \<open>char_lower\<close> and are not word characters here.
\<close>

definition is_word_char :: "char \<Rightarrow> bool" where
  "is_word_char c =
     (let n = (of_char c :: nat)
      in (48 \<le> n \<and> n \<le> 57) \<or> (65 \<le> n \<and> n \<le> 90) \<or> n = 95 \<or> (97 \<le> n \<and> n \<le> 122))"

definition char_lower :: "char \<Rightarrow> char" where
  "char_lower c =
     (let n = (of_char c :: nat)
      in if 65 \<le> n \<and> n \<le> 90 then char_of (n + 32) else c)"

definition lower :: "string \<Rightarrow> string" where
  "lower s = map char_lower s"

text \<open>\<open>str.split(',')\<close>, which app.py applies to the TARGET_WORDS environment variable.\<close>

fun split_comma :: "string \<Rightarrow> string list" where
  "split_comma [] = [[]]"
| "split_comma (c # cs) =
     (if c = CHR '','' then [] # split_comma cs
      else (case split_comma cs of
              [] \<Rightarrow> [[c]]
            | x # xs \<Rightarrow> (c # x) # xs))"

section \<open>The pattern \<open>\b + re.escape(word) + \b\<close> and \<open>len(re.findall(pattern, text))\<close>\<close>

text \<open>
  The position before the text and the position after it have no character:
  \<open>None\<close>. \<open>\b\<close> holds between two positions when exactly one of them is a word
  character.
\<close>

fun is_word_opt :: "char option \<Rightarrow> bool" where
  "is_word_opt None = False"
| "is_word_opt (Some c) = is_word_char c"

definition word_boundary :: "char option \<Rightarrow> char option \<Rightarrow> bool" where
  "word_boundary l r = (is_word_opt l \<noteq> is_word_opt r)"

definition next_char :: "string \<Rightarrow> char option" where
  "next_char s = (case s of [] \<Rightarrow> None | c # _ \<Rightarrow> Some c)"

text \<open>
  \<open>match_here w prev s\<close>: the pattern matches at the start of the remaining text \<open>s\<close>,
  whose preceding character is \<open>prev\<close>. \<open>re.escape\<close> makes the word a literal, so the
  middle of the pattern matches exactly the characters of \<open>w\<close>.
\<close>

definition match_here :: "string \<Rightarrow> char option \<Rightarrow> string \<Rightarrow> bool" where
  "match_here w prev s =
     (take (length w) s = w
      \<and> word_boundary prev (next_char s)
      \<and> word_boundary (if w = [] then prev else Some (last w)) (next_char (drop (length w) s)))"

text \<open>
  \<open>re.findall\<close> scans from the left; after a match it resumes at the end of the match
  (matches do not overlap), and after an empty match one character further.
\<close>

function findall_count :: "string \<Rightarrow> char option \<Rightarrow> string \<Rightarrow> nat" where
  "findall_count w prev [] = (if match_here w prev [] then 1 else 0)"
| "findall_count w prev (c # cs) =
     (if match_here w prev (c # cs)
      then (if w = [] then Suc (findall_count w (Some c) cs)
            else Suc (findall_count w (Some (last w)) (drop (length w) (c # cs))))
      else findall_count w (Some c) cs)"
  by pat_completeness auto
termination
  by (relation "measure (\<lambda>(w, prev, s). length s)") auto

definition count_matches :: "string \<Rightarrow> string \<Rightarrow> nat" where
  "count_matches word text = findall_count word None text"

section \<open>The counter table (\<open>collections.Counter\<close>)\<close>

type_synonym counter = "string \<rightharpoonup> nat"

text \<open>Reading a missing key of a Counter gives 0 and stores nothing.\<close>

definition counter_get :: "counter \<Rightarrow> string \<Rightarrow> nat" where
  "counter_get c k = (case c k of None \<Rightarrow> 0 | Some n \<Rightarrow> n)"

text \<open>\<open>self.word_counts[word] += count\<close>: no membership check, no exception.\<close>

definition counter_add :: "counter \<Rightarrow> string \<Rightarrow> nat \<Rightarrow> counter" where
  "counter_add c k n = c(k \<mapsto> counter_get c k + n)"

section \<open>The TwitchWordCounter object\<close>

type_synonym bytes = "8 word list"

text \<open>
  What the object prints, one event per print of interest: the table printed by
  \<open>display_counts\<close> (the count of every entry of \<open>target_words\<close>, in order; its clock
  header is left out), the transcribed line, and the two error lines.
\<close>

datatype event =
    DisplayCounts "(string \<times> nat) list"
  | Transcribed string
  | RecognitionServiceError string
  | ProcessingError string

text \<open>
  A \<open>datetime\<close> is the number of microseconds on the naive local time line; the queue
  holds the audio payload of each temporary WAV file.
\<close>

record twc =
  channel_name :: string
  target_words :: "string list"
  word_counts :: counter
  start_time :: int
  quality :: string
  running :: bool
  audio_queue :: "bytes list"
  rate :: nat
  chunk :: nat
  record_seconds :: nat
  printed :: "event list"

text \<open>
  \<open>__init__\<close>: \<open>target_words\<close> is \<open>None\<close> or a list; both \<open>None\<close> and the empty list are
  falsy. \<open>now\<close> is the value of \<open>datetime.now()\<close>.
\<close>

definition init :: "string \<Rightarrow> string list option \<Rightarrow> string \<Rightarrow> int \<Rightarrow> twc" where
  "init channel tw q now =
     \<lparr> channel_name = lower channel,
       target_words = (case tw of
                         None \<Rightarrow> [''fuck'']
                       | Some ws \<Rightarrow> if ws = [] then [''fuck''] else map lower ws),
       word_counts = Map.empty,
       start_time = now,
       quality = q,
       running = False,
       audio_queue = [],
       rate = 16000,
       chunk = 1024,
       record_seconds = 5,
       printed = [] \<rparr>"

datatype error = SysExit nat

text \<open>
  \<open>main\<close>: \<open>--words\<close> has \<open>nargs="+"\<close> and the default \<open>["fuck"]\<close>; the option given
  with no word makes argparse exit with status 2.
\<close>

definition parse_words :: "string list option \<Rightarrow> error + string list" where
  "parse_words given =
     (case given of
        None \<Rightarrow> Inr [''fuck'']
      | Some ws \<Rightarrow> if ws = [] then Inl (SysExit 2) else Inr ws)"

definition main :: "string \<Rightarrow> string list option \<Rightarrow> string \<Rightarrow> int \<Rightarrow> error + twc" where
  "main channel given q now =
     (case parse_words given of
        Inl e \<Rightarrow> Inl e
      | Inr ws \<Rightarrow> Inr (init channel (Some ws) q now))"

section \<open>Elapsed time\<close>

record elapsed =
  hours :: int
  minutes :: int
  seconds :: int

text \<open>
  The \<open>seconds\<close> attribute of the normalised \<open>timedelta\<close> with the given total number
  of microseconds: the days are split off first (Python's floor division).
\<close>

definition timedelta_seconds :: "int \<Rightarrow> int" where
  "timedelta_seconds us = (us mod 86400000000) div 1000000"

definition get_elapsed_time :: "twc \<Rightarrow> int \<Rightarrow> elapsed" where
  "get_elapsed_time st now =
     (let secs = timedelta_seconds (now - start_time st);
          h = secs div 3600;
          remainder = secs mod 3600
      in \<lparr> hours = h, minutes = remainder div 60, seconds = remainder mod 60 \<rparr>)"

section \<open>The capture loop of \<open>stream_audio\<close>\<close>

text \<open>
  \<open>int(self.rate / self.chunk * self.record_seconds)\<close>. The source divides floats;
  for the object's values (16000, 1024, 5) the quotient 15.625 and the product
  78.125 are exact, and the integer quotient below is the same number, 78. The
  constructor sets \<open>chunk\<close> to 1024, so the division by zero does not arise.
\<close>

definition chunks_per_recording :: "twc \<Rightarrow> nat" where
  "chunks_per_recording st = (rate st * record_seconds st) div chunk st"

text \<open>
  The \<open>while self.running\<close> loop over the successive results of
  \<open>process.stdout.read(self.chunk)\<close>. An empty read is the end of the stream
  (\<open>break\<close>); the end of the list of reads is the loop left because \<open>running\<close> was
  cleared. The result is the local list \<open>frames\<close> as the loop leaves it, and the queue.
\<close>

fun stream_loop :: "nat \<Rightarrow> bytes list \<Rightarrow> bytes list \<Rightarrow> bytes list \<Rightarrow> bytes list \<times> bytes list" where
  "stream_loop cpr [] frames queue = (frames, queue)"
| "stream_loop cpr (data # reads) frames queue =
     (if data = [] then (frames, queue)
      else (let frames' = frames @ [data]
            in if length frames' \<ge> cpr
               then stream_loop cpr reads [] (queue @ [concat frames'])
               else stream_loop cpr reads frames' queue))"

text \<open>
  \<open>stream_audio\<close>: with no stream for the channel the thread exits with status 1;
  otherwise the loop runs, and the local \<open>frames\<close> is dropped when the method
  returns: after the loop come only the calls that close the audio device and the
  transcoder. An exception of a library call (caught by the handler of the method,
  which prints a line, clears \<open>running\<close> and exits with status 1) is not a case of
  this model.
\<close>

definition stream_audio :: "twc \<Rightarrow> bytes list option \<Rightarrow> error + twc" where
  "stream_audio st source =
     (case source of
        None \<Rightarrow> Inl (SysExit 1)
      | Some reads \<Rightarrow>
          Inr (st\<lparr>audio_queue :=
                 snd (stream_loop (chunks_per_recording st) reads [] (audio_queue st))\<rparr>))"

section \<open>The recognition loop of \<open>process_audio\<close>\<close>

text \<open>
  What the speech recogniser does with one sub-clip: it returns a text, raises
  \<open>sr.UnknownValueError\<close>, raises \<open>sr.RequestError\<close>, or something else in the
  iteration raises another exception. What happens to one queued unit: loading or
  splitting it raises, or it is split into sub-clips.
\<close>

datatype clip_outcome =
    Recognized string
  | UnknownValueError
  | RequestError string
  | OtherError string

datatype unit_outcome =
    LoadError string
  | Clips "clip_outcome list"

definition display_counts :: "twc \<Rightarrow> twc" where
  "display_counts st =
     st\<lparr>printed := printed st
            @ [DisplayCounts (map (\<lambda>w. (w, counter_get (word_counts st) w)) (target_words st))]\<rparr>"

text \<open>The loop \<open>for word in self.target_words\<close> over the lowercased text.\<close>

fun check_words :: "string list \<Rightarrow> string \<Rightarrow> twc \<Rightarrow> twc" where
  "check_words [] text st = st"
| "check_words (word # ws) text st =
     (let count = count_matches word text
      in if count > 0
         then (let st1 = st\<lparr>word_counts := counter_add (word_counts st) word count\<rparr>;
                   st2 = display_counts st1;
                   st3 = st2\<lparr>printed := printed st2 @ [Transcribed text]\<rparr>
               in check_words ws text st3)
         else check_words ws text st)"

text \<open>
  The loop over the sub-clips of one unit. \<open>UnknownValueError\<close> is passed over,
  \<open>RequestError\<close> prints a line, and the loop goes on; any other exception leaves the
  loop for the outer handler, which prints a line and goes to the next unit.
\<close>

fun process_clips :: "twc \<Rightarrow> clip_outcome list \<Rightarrow> twc" where
  "process_clips st [] = st"
| "process_clips st (Recognized text # cs) =
     process_clips (check_words (target_words st) (lower text) st) cs"
| "process_clips st (UnknownValueError # cs) = process_clips st cs"
| "process_clips st (RequestError e # cs) =
     process_clips (st\<lparr>printed := printed st @ [RecognitionServiceError e]\<rparr>) cs"
| "process_clips st (OtherError e # cs) = st\<lparr>printed := printed st @ [ProcessingError e]\<rparr>"

fun process_unit :: "twc \<Rightarrow> unit_outcome \<Rightarrow> twc" where
  "process_unit st (LoadError e) = st\<lparr>printed := printed st @ [ProcessingError e]\<rparr>"
| "process_unit st (Clips cs) = process_clips st cs"

text \<open>
  The iterations of \<open>while self.running\<close> that take a unit from the queue, in queue
  order, each with what the external audio and speech libraries make of that unit.
  The iterations that find the queue empty sleep and change nothing; the temporary
  files that an iteration removes are not modelled.
\<close>

definition process_audio :: "twc \<Rightarrow> unit_outcome list \<Rightarrow> twc" where
  "process_audio st units = foldl process_unit st units"

section \<open>app.py: the published counts\<close>

text \<open>
  The module globals \<open>word_counts\<close> (a dict, empty at first) and \<open>running_time\<close>, and
  the counter object.
\<close>

record app =
  twitch_channel :: string
  counter_obj :: twc
  g_word_counts :: "string \<rightharpoonup> nat"
  g_running_time :: elapsed

definition app_init :: "string \<Rightarrow> string \<Rightarrow> int \<Rightarrow> app" where
  "app_init channel words_env now =
     \<lparr> twitch_channel = channel,
       counter_obj = init channel (Some (split_comma words_env)) ''audio_only'' now,
       g_word_counts = Map.empty,
       g_running_time = \<lparr> hours = 0, minutes = 0, seconds = 0 \<rparr> \<rparr>"

text \<open>
  One iteration of the \<open>while True\<close> loop of \<open>update_counts\<close>, run at time \<open>now\<close>
  and taken as one step: the counts of the target words are copied from the counter
  object into the global dict, then the running time is recomputed from the clock.
\<close>

definition publish_words :: "string list \<Rightarrow> counter \<Rightarrow> (string \<rightharpoonup> nat) \<Rightarrow> (string \<rightharpoonup> nat)" where
  "publish_words ws c g = foldl (\<lambda>g w. g(w \<mapsto> counter_get c w)) g ws"

definition update_counts :: "int \<Rightarrow> app \<Rightarrow> app" where
  "update_counts now a =
     a\<lparr>g_word_counts :=
         publish_words (target_words (counter_obj a)) (word_counts (counter_obj a)) (g_word_counts a),
       g_running_time := get_elapsed_time (counter_obj a) now\<rparr>"

text \<open>The payload of \<open>/api/counts\<close>: channel, counts, running time.\<close>

definition get_counts :: "app \<Rightarrow> string \<times> (string \<rightharpoonup> nat) \<times> elapsed" where
  "get_counts a = (twitch_channel a, g_word_counts a, g_running_time a)"

text \<open>The recognition thread working on the counter object of the application.\<close>

definition app_process_audio :: "unit_outcome list \<Rightarrow> app \<Rightarrow> app" where
  "app_process_audio units a = a\<lparr>counter_obj := process_audio (counter_obj a) units\<rparr>"

text \<open>Successive iterations of the \<open>update_counts\<close> loop, at the given times.\<close>

definition refreshes :: "int list \<Rightarrow> app \<Rightarrow> app" where
  "refreshes ts a = foldl (\<lambda>a t. update_counts t a) a ts"

section \<open>Notions used to state the properties\<close>






text \<open>
  Occurrences of a word in a text, by position. The character before position 0 and
  the character after the last one do not exist. A whole-word occurrence has no word
  character (letter, digit or underscore) next to it on either side.
\<close>

definition occurs_at :: "string \<Rightarrow> string \<Rightarrow> nat \<Rightarrow> bool" where
  "occurs_at w t i = (i + length w \<le> length t \<and> take (length w) (drop i t) = w)"

definition left_neighbour :: "string \<Rightarrow> nat \<Rightarrow> char option" where
  "left_neighbour t i = (if i = 0 then None else Some (t ! (i - 1)))"

definition right_neighbour :: "string \<Rightarrow> nat \<Rightarrow> char option" where
  "right_neighbour t j = (if j < length t then Some (t ! j) else None)"

definition whole_word_at :: "string \<Rightarrow> string \<Rightarrow> nat \<Rightarrow> bool" where
  "whole_word_at w t i =
     (occurs_at w t i
      \<and> \<not> is_word_opt (left_neighbour t i)
      \<and> \<not> is_word_opt (right_neighbour t (i + length w)))"

definition whole_word_positions :: "string \<Rightarrow> string \<Rightarrow> nat list" where
  "whole_word_positions w t = filter (whole_word_at w t) [0..<Suc (length t)]"

text \<open>
  The same with the wording "not adjacent to an alphanumeric character": letters and
  digits only.
\<close>

definition is_alnum :: "char \<Rightarrow> bool" where
  "is_alnum c =
     (let n = (of_char c :: nat)
      in (48 \<le> n \<and> n \<le> 57) \<or> (65 \<le> n \<and> n \<le> 90) \<or> (97 \<le> n \<and> n \<le> 122))"

fun is_alnum_opt :: "char option \<Rightarrow> bool" where
  "is_alnum_opt None = False"
| "is_alnum_opt (Some c) = is_alnum c"

definition alnum_free_at :: "string \<Rightarrow> string \<Rightarrow> nat \<Rightarrow> bool" where
  "alnum_free_at w t i =
     (occurs_at w t i
      \<and> \<not> is_alnum_opt (left_neighbour t i)
      \<and> \<not> is_alnum_opt (right_neighbour t (i + length w)))"

definition alnum_free_positions :: "string \<Rightarrow> string \<Rightarrow> nat list" where
  "alnum_free_positions w t = filter (alnum_free_at w t) [0..<Suc (length t)]"

text \<open>
  The whole-word occurrences of \<open>w\<close> in a remaining text \<open>s\<close> whose preceding
  character is \<open>prev\<close>, counted: the form in which the scan is followed step by step.
\<close>

definition whole_word_after :: "char option \<Rightarrow> string \<Rightarrow> string \<Rightarrow> nat \<Rightarrow> bool" where
  "whole_word_after prev w s i =
     (occurs_at w s i
      \<and> \<not> is_word_opt (if i = 0 then prev else left_neighbour s i)
      \<and> \<not> is_word_opt (right_neighbour s (i + length w)))"

definition count_after :: "char option \<Rightarrow> string \<Rightarrow> string \<Rightarrow> nat" where
  "count_after prev w s = length (filter (whole_word_after prev w s) [0..<Suc (length s)])"

text \<open>The complete windows of \<open>n\<close> reads each, in order: window \<open>k\<close> is reads \<open>k * n\<close> to \<open>k * n + n - 1\<close>.\<close>

definition complete_windows :: "nat \<Rightarrow> bytes list \<Rightarrow> bytes list" where
  "complete_windows n reads =
     map (\<lambda>k. concat (take n (drop (k * n) reads))) [0..<length reads div n]"

section \<open>Evaluations shared by the scenarios\<close>

lemma lower_fuck: "lower ''fuck'' = ''fuck''"
  by code_simp

lemma lower_fucked_up: "lower ''that is fucked up'' = ''that is fucked up''"
  by code_simp

lemma lower_fucking_game: "lower ''I love this fucking game'' = ''i love this fucking game''"
  by code_simp

lemma no_match_fucked_up: "count_matches ''fuck'' ''that is fucked up'' = 0"
  by code_simp

lemma no_match_fucking_game: "count_matches ''fuck'' ''i love this fucking game'' = 0"
  by code_simp

section \<open>Scenario 1: "fucked" and "fucking" against the target word "fuck"\<close>

text \<open>
  C1, as stated: with the target words ["fuck"] and the transcripts
  "that is fucked up" and "I love this fucking game", the final count of "fuck" is 2.
  The code gives another number: the statement below is the failure of the claim at
  that very input.
\<close>

theorem scenario_one_count_not_two:
  "counter_get
     (word_counts
        (process_audio (init ''asmongold'' (Some [''fuck'']) ''audio_only'' 0)
           [Clips [Recognized ''that is fucked up''],
            Clips [Recognized ''I love this fucking game'']]))
     ''fuck'' \<noteq> 2"
  by code_simp

text \<open>
  C1, amended: for that session and those two transcripts the final count of "fuck"
  is 0, and the table has no entry at all: the pattern is anchored by \<open>\b\<close> on both
  sides, and in "fucked" and "fucking" the word is followed by a letter.
\<close>

theorem scenario_one_count_zero:
  "word_counts
     (process_audio (init ch (Some [''fuck'']) q t0)
        [Clips [Recognized ''that is fucked up''],
         Clips [Recognized ''I love this fucking game'']]) = Map.empty
   \<and> counter_get
        (word_counts
           (process_audio (init ch (Some [''fuck'']) q t0)
              [Clips [Recognized ''that is fucked up''],
               Clips [Recognized ''I love this fucking game'']]))
        ''fuck'' = 0"
  by (simp add: process_audio_def init_def counter_get_def lower_fuck lower_fucked_up
      lower_fucking_game no_match_fucked_up no_match_fucking_game)

section \<open>Elapsed time\<close>

lemma timedelta_seconds_day_stripped: "timedelta_seconds us = us div 1000000 mod 86400"
proof -
  have "us mod (1000000 * 86400) = 1000000 * (us div 1000000 mod 86400) + us mod 1000000"
    by (rule zmod_zmult2_eq) simp
  then have "us mod 86400000000 div 1000000
      = (1000000 * (us div 1000000 mod 86400) + us mod 1000000) div 1000000"
    by simp
  also have "\<dots> = us div 1000000 mod 86400"
    by simp
  finally show ?thesis
    by (simp add: timedelta_seconds_def)
qed

lemma timedelta_seconds_range: "0 \<le> timedelta_seconds us \<and> timedelta_seconds us < 86400"
  by (simp add: timedelta_seconds_day_stripped)

lemma elapsed_hours_range:
  "0 \<le> hours (get_elapsed_time st now) \<and> hours (get_elapsed_time st now) \<le> 23"
proof -
  let ?s = "timedelta_seconds (now - start_time st)"
  have "0 \<le> ?s" "?s < 86400"
    using timedelta_seconds_range [of "now - start_time st"] by simp_all
  then have "0 \<le> ?s div 3600" "?s div 3600 \<le> 23"
    by simp_all
  then show ?thesis
    by (simp add: get_elapsed_time_def Let_def)
qed

lemma elapsed_minutes_seconds_range:
  "0 \<le> minutes (get_elapsed_time st now) \<and> minutes (get_elapsed_time st now) \<le> 59
   \<and> 0 \<le> seconds (get_elapsed_time st now) \<and> seconds (get_elapsed_time st now) \<le> 59"
proof -
  let ?r = "timedelta_seconds (now - start_time st) mod 3600"
  have "0 \<le> ?r" "?r < 3600"
    by simp_all
  then have "0 \<le> ?r div 60" "?r div 60 \<le> 59"
    by simp_all
  moreover have "0 \<le> ?r mod 60" "?r mod 60 \<le> 59"
    by simp_all
  ultimately show ?thesis
    by (simp add: get_elapsed_time_def Let_def)
qed

lemma elapsed_recomposed:
  "hours (get_elapsed_time st now) * 3600 + minutes (get_elapsed_time st now) * 60
     + seconds (get_elapsed_time st now)
   = (now - start_time st) div 1000000 mod 86400"
proof -
  let ?s = "timedelta_seconds (now - start_time st)"
  have "?s div 3600 * 3600 + ?s mod 3600 div 60 * 60 + ?s mod 3600 mod 60 = ?s"
    by simp
  then show ?thesis
    by (simp add: get_elapsed_time_def Let_def timedelta_seconds_day_stripped)
qed

lemma elapsed_after_25_hours:
  "get_elapsed_time st (start_time st + 25 * 3600 * 1000000)
   = \<lparr> hours = 1, minutes = 0, seconds = 0 \<rparr>"
  by (simp add: get_elapsed_time_def timedelta_seconds_def)

text \<open>
  C5: a clock started at T0 and read at T0 + 3725 s gives 1 h 2 min 5 s; in general
  only the remainder of the elapsed time within the day is decomposed, so the hours
  are always in 0..23 and the minutes and seconds in 0..59, whatever the length of the
  session (the three fields recompose to the elapsed whole seconds modulo 86400).
\<close>

theorem elapsed_day_stripped:
  "get_elapsed_time st (start_time st + 3725 * 1000000)
     = \<lparr> hours = 1, minutes = 2, seconds = 5 \<rparr>
   \<and> 0 \<le> hours (get_elapsed_time st now) \<and> hours (get_elapsed_time st now) \<le> 23
   \<and> 0 \<le> minutes (get_elapsed_time st now) \<and> minutes (get_elapsed_time st now) \<le> 59
   \<and> 0 \<le> seconds (get_elapsed_time st now) \<and> seconds (get_elapsed_time st now) \<le> 59
   \<and> hours (get_elapsed_time st now) * 3600 + minutes (get_elapsed_time st now) * 60
       + seconds (get_elapsed_time st now)
      = (now - start_time st) div 1000000 mod 86400"
proof -
  have "get_elapsed_time st (start_time st + 3725 * 1000000)
      = \<lparr> hours = 1, minutes = 2, seconds = 5 \<rparr>"
    by (simp add: get_elapsed_time_def timedelta_seconds_def)
  then show ?thesis
    using elapsed_hours_range [of st now] elapsed_minutes_seconds_range [of st now]
      elapsed_recomposed [of st now]
    by blast
qed

section \<open>The default target word\<close>

text \<open>
  C10: a constructor call with no target words, or with the empty list, takes the
  default list ["fuck"]; the target word list of a constructed object is never empty.
  The command line does the same without \<open>--words\<close>, and refuses \<open>--words\<close> with no
  word.
\<close>

theorem empty_target_words_replaced:
  "target_words (init ch None q now) = [''fuck'']
   \<and> target_words (init ch (Some []) q now) = [''fuck'']
   \<and> target_words (init ch tw q now) \<noteq> []
   \<and> main ch None q now = Inr (init ch None q now)
   \<and> main ch (Some []) q now = Inl (SysExit 2)"
  by (auto simp: init_def main_def parse_words_def lower_fuck split: option.splits)

section \<open>The counter table and the word loop\<close>

lemma counter_get_add: "counter_get (counter_add c w d) w' = (if w' = w then counter_get c w + d else counter_get c w')"
  by (simp add: counter_get_def counter_add_def)

lemma counter_add_other: "w' \<noteq> w \<Longrightarrow> counter_add c w d w' = c w'"
  by (simp add: counter_add_def)

lemma dom_counter_add: "dom (counter_add c w d) = insert w (dom c)"
  by (simp add: counter_add_def)

lemma counter_add_changes: "c w = None \<Longrightarrow> counter_add c w d \<noteq> c"
proof
  assume "c w = None" and "counter_add c w d = c"
  then have "counter_add c w d w = None" by simp
  then show False by (simp add: counter_add_def)
qed

lemma target_words_check_words: "target_words (check_words ws text st) = target_words st"
  by (induction ws arbitrary: st) (simp_all add: Let_def display_counts_def)

lemma word_counts_check_words:
  "word_counts (check_words ws text st)
   = foldl (\<lambda>c w. if 0 < count_matches w text then counter_add c w (count_matches w text) else c)
       (word_counts st) ws"
  by (induction ws arbitrary: st) (simp_all add: Let_def display_counts_def)

lemma counter_get_tally:
  "counter_get (foldl (\<lambda>c w. if 0 < f w then counter_add c w (f w) else c) c0 ws) w
   = counter_get c0 w + count_list ws w * f w"
  by (induction ws arbitrary: c0) (simp_all add: counter_get_add)

lemma dom_tally:
  "dom (foldl (\<lambda>c w. if 0 < f w then counter_add c w (f w) else c) c0 ws)
   = dom c0 \<union> {w \<in> set ws. 0 < f w}"
  by (induction ws arbitrary: c0) (auto simp: dom_counter_add)


lemma target_words_process_clips: "target_words (process_clips st cs) = target_words st"
  by (induction st cs rule: process_clips.induct) (simp_all add: target_words_check_words)

lemma dom_process_clips:
  "dom (word_counts (process_clips st cs)) \<subseteq> dom (word_counts st) \<union> set (target_words st)"
  by (induction st cs rule: process_clips.induct)
     (auto simp: target_words_check_words word_counts_check_words dom_tally)

lemma target_words_process_unit: "target_words (process_unit st u) = target_words st"
  by (cases u) (simp_all add: target_words_process_clips)

lemma dom_process_unit:
  "dom (word_counts (process_unit st u)) \<subseteq> dom (word_counts st) \<union> set (target_words st)"
  using dom_process_clips by (cases u) simp_all

lemma process_audio_keys:
  "target_words (process_audio st units) = target_words st
   \<and> dom (word_counts (process_audio st units)) \<subseteq> dom (word_counts st) \<union> set (target_words st)"
  unfolding process_audio_def
proof (induction units arbitrary: st)
  case Nil
  then show ?case by simp
next
  case (Cons u units)
  let ?st1 = "process_unit st u"
  have tw: "target_words ?st1 = target_words st"
    by (rule target_words_process_unit)
  have "dom (word_counts (foldl process_unit ?st1 units))
      \<subseteq> dom (word_counts ?st1) \<union> set (target_words st)"
    using Cons.IH [of ?st1] tw by simp
  also have "\<dots> \<subseteq> dom (word_counts st) \<union> set (target_words st)"
    using dom_process_unit [of st u] by blast
  finally show ?case
    using Cons.IH [of ?st1] tw by simp
qed

lemma lower_Fuck: "lower ''Fuck'' = ''fuck''"
  by code_simp

lemma lower_what_the_fuck: "lower ''what the fuck'' = ''what the fuck''"
  by code_simp

lemma one_match_what_the_fuck: "count_matches ''fuck'' ''what the fuck'' = 1"
  by code_simp


section \<open>Incrementing the counter table\<close>

text \<open>
  C4, as stated: for a word outside the target words and a delta of at least 1, the
  increment fails with InvalidWord and changes no count. The table of the code is a
  \<open>Counter\<close> and its increment is \<open>+=\<close>: for the target words ["fuck"], the word
  "shit" and the delta 1, the increment goes through and the table has changed.
\<close>

theorem increment_accepts_other_word:
  "''shit'' \<notin> set (target_words (init ''asmongold'' (Some [''fuck'']) ''audio_only'' 0))
   \<and> counter_get
        (counter_add (word_counts (init ''asmongold'' (Some [''fuck'']) ''audio_only'' 0)) ''shit'' 1)
        ''shit'' = 1
   \<and> counter_add (word_counts (init ''asmongold'' (Some [''fuck'']) ''audio_only'' 0)) ''shit'' 1
        \<noteq> word_counts (init ''asmongold'' (Some [''fuck'']) ''audio_only'' 0)"
proof -
  have a: "counter_add Map.empty ''shit'' 1 \<noteq> Map.empty"
    by (rule counter_add_changes) simp
  have b: "counter_get (counter_add Map.empty ''shit'' 1) ''shit'' = 1"
    by (simp add: counter_get_def counter_add_def)
  from a b show ?thesis
    by (simp add: init_def lower_fuck)
qed

text \<open>
  C4, amended: the increment of the counter table has no membership check and no
  error: for every word, in the target words or not, it adds the delta to the count
  of that word and leaves every other entry as it was. Words outside the target
  words are kept out of the table by the caller alone: \<open>process_audio\<close> increments
  only entries of \<open>target_words\<close>, so a table whose keys are target words keeps that
  property through any run.
\<close>

theorem increment_unchecked:
  "counter_get (counter_add c w d) w = counter_get c w + d
   \<and> (w' \<noteq> w \<longrightarrow> counter_add c w d w' = c w')
   \<and> (dom (word_counts st) \<subseteq> set (target_words st)
        \<longrightarrow> dom (word_counts (process_audio st units)) \<subseteq> set (target_words st))"
  using process_audio_keys [of st units]
  by (auto simp: counter_get_add counter_add_other)

theorem increment_unchecked_witness:
  "counter_get (counter_add Map.empty ''shit'' 1) ''shit'' = 1
   \<and> counter_add Map.empty ''shit'' 1 ''fuck'' = None
   \<and> dom (word_counts
            (process_audio (init ''asmongold'' (Some [''fuck'']) ''audio_only'' 0)
               [Clips [Recognized ''what the fuck'']])) \<subseteq> {''fuck''}"
  using increment_unchecked [of Map.empty "''shit''" 1 "''fuck''"
      "init ''asmongold'' (Some [''fuck'']) ''audio_only'' 0"
      "[Clips [Recognized ''what the fuck'']]"]
  by (simp add: init_def lower_fuck counter_get_def)

section \<open>Words without a match\<close>



section \<open>Duplicates in the target word list\<close>

text \<open>
  C8, as stated: the target words are a set, each word once, so that one occurrence in
  a transcript adds one to the count of the word. The constructor lowercases the
  configured list entry by entry and removes nothing: from ["fuck", "Fuck"] it makes
  ["fuck", "fuck"], and the single occurrence in "what the fuck" adds 2.
\<close>

theorem duplicate_words_counted_twice:
  "\<not> distinct (target_words (init ''asmongold'' (Some [''fuck'', ''Fuck'']) ''audio_only'' 0))
   \<and> counter_get
        (word_counts
           (process_audio (init ''asmongold'' (Some [''fuck'', ''Fuck'']) ''audio_only'' 0)
              [Clips [Recognized ''what the fuck'']]))
        ''fuck'' = 2"
proof -
  have tw: "target_words (init ''asmongold'' (Some [''fuck'', ''Fuck'']) ''audio_only'' 0)
      = [''fuck'', ''fuck'']"
    by (simp add: init_def lower_fuck lower_Fuck)
  have "counter_get (word_counts (init ''asmongold'' (Some [''fuck'', ''Fuck'']) ''audio_only'' 0)) ''fuck'' = 0"
    by (simp add: init_def counter_get_def)
  with tw show ?thesis
    by (simp add: process_audio_def word_counts_check_words counter_get_add
        lower_what_the_fuck one_match_what_the_fuck del: check_words.simps)
qed

text \<open>
  C8, amended: the target word list is the configured list lowercased entry by entry,
  in the configured order and with its duplicates; one transcript adds to the count of
  a word its number of whole-word matches once for every entry of the list equal to
  that word.
\<close>

theorem target_words_keep_duplicates:
  assumes "ws \<noteq> []"
  shows "target_words (init ch (Some ws) q now) = map lower ws
     \<and> counter_get (word_counts (process_unit st (Clips [Recognized T]))) w
        = counter_get (word_counts st) w
          + count_list (target_words st) w * count_matches w (lower T)"
  using assms by (simp add: init_def word_counts_check_words counter_get_tally)

theorem target_words_keep_duplicates_witness:
  "[''fuck'', ''Fuck''] \<noteq> []
   \<and> target_words (init ''asmongold'' (Some [''fuck'', ''Fuck'']) ''audio_only'' 0)
      = [''fuck'', ''fuck'']
   \<and> counter_get
        (word_counts
           (process_unit (init ''asmongold'' (Some [''fuck'', ''Fuck'']) ''audio_only'' 0)
              (Clips [Recognized ''what the fuck''])))
        ''fuck'' = 2"
proof -
  have h: "[''fuck'', ''Fuck''] \<noteq> []"
    by simp
  have z: "counter_get (word_counts (init ''asmongold'' (Some [''fuck'', ''Fuck'']) ''audio_only'' 0)) ''fuck'' = 0"
    by (simp add: init_def counter_get_def)
  from target_words_keep_duplicates [OF h, of "''asmongold''" "''audio_only''" 0
      "init ''asmongold'' (Some [''fuck'', ''Fuck'']) ''audio_only'' 0" "''what the fuck''" "''fuck''"] z
  show ?thesis
    by (simp add: lower_fuck lower_Fuck lower_what_the_fuck one_match_what_the_fuck
        del: process_unit.simps)
qed

section \<open>Failures of the recognition service\<close>

















section \<open>Snapshots of the published counts\<close>

lemma publish_words_eq:
  "publish_words ws c g = (\<lambda>k. if k \<in> set ws then Some (counter_get c k) else g k)"
  unfolding publish_words_def
  by (induction ws arbitrary: g) (auto simp: fun_eq_iff)

lemma publish_words_idem: "publish_words ws c (publish_words ws c g) = publish_words ws c g"
  by (simp add: publish_words_eq fun_eq_iff)

lemma elapsed_by_second:
  "get_elapsed_time st now
   = (let secs = (now - start_time st) div 1000000 mod 86400
      in \<lparr> hours = secs div 3600, minutes = secs mod 3600 div 60, seconds = secs mod 3600 mod 60 \<rparr>)"
  by (simp add: get_elapsed_time_def Let_def timedelta_seconds_day_stripped)

lemma counter_obj_update_counts: "counter_obj (update_counts t a) = counter_obj a"
  by (simp add: update_counts_def)

lemma elapsed_same_second:
  "get_elapsed_time st t2 = get_elapsed_time st t1
   \<longleftrightarrow> (t2 - start_time st) div 1000000 mod 86400 = (t1 - start_time st) div 1000000 mod 86400"
proof
  assume "get_elapsed_time st t2 = get_elapsed_time st t1"
  then have "hours (get_elapsed_time st t2) * 3600 + minutes (get_elapsed_time st t2) * 60
      + seconds (get_elapsed_time st t2)
    = hours (get_elapsed_time st t1) * 3600 + minutes (get_elapsed_time st t1) * 60
      + seconds (get_elapsed_time st t1)"
    by simp
  then show "(t2 - start_time st) div 1000000 mod 86400 = (t1 - start_time st) div 1000000 mod 86400"
    by (simp only: elapsed_recomposed)
next
  assume "(t2 - start_time st) div 1000000 mod 86400 = (t1 - start_time st) div 1000000 mod 86400"
  then show "get_elapsed_time st t2 = get_elapsed_time st t1"
    unfolding elapsed_by_second by simp
qed

lemma twitch_channel_update_counts: "twitch_channel (update_counts t a) = twitch_channel a"
  by (simp add: update_counts_def)

lemma publish_words_fixed:
  "publish_words ws c g = g \<longleftrightarrow> (\<forall>w\<in>set ws. g w = Some (counter_get c w))"
  by (auto simp: publish_words_eq fun_eq_iff)

lemma refreshes_Cons: "refreshes (t # ts) a = refreshes ts (update_counts t a)"
  by (simp add: refreshes_def)

lemma refreshes_last:
  "ts \<noteq> [] \<Longrightarrow>
   refreshes ts a
   = a\<lparr>g_word_counts :=
         publish_words (target_words (counter_obj a)) (word_counts (counter_obj a)) (g_word_counts a),
       g_running_time := get_elapsed_time (counter_obj a) (last ts)\<rparr>"
proof (induction ts arbitrary: a)
  case Nil
  then show ?case by simp
next
  case (Cons t ts)
  show ?case
  proof (cases "ts = []")
    case True
    then show ?thesis
      by (simp add: refreshes_def update_counts_def)
  next
    case False
    have "refreshes (t # ts) a = refreshes ts (update_counts t a)"
      by (rule refreshes_Cons)
    also from False have "\<dots>
        = (update_counts t a)\<lparr>g_word_counts :=
             publish_words (target_words (counter_obj (update_counts t a)))
               (word_counts (counter_obj (update_counts t a))) (g_word_counts (update_counts t a)),
           g_running_time := get_elapsed_time (counter_obj (update_counts t a)) (last ts)\<rparr>"
      by (rule Cons.IH)
    also have "\<dots> = a\<lparr>g_word_counts :=
         publish_words (target_words (counter_obj a)) (word_counts (counter_obj a)) (g_word_counts a),
       g_running_time := get_elapsed_time (counter_obj a) (last (t # ts))\<rparr>"
      using False by (simp add: update_counts_def publish_words_idem)
    finally show ?thesis .
  qed
qed

text \<open>
  C9, as stated: two snapshots with no increment between them are equal, counts and
  elapsed time. The snapshot is the pair of module globals that the \<open>update_counts\<close>
  loop refreshes every second from the counter object; an increment made after a
  refresh is published by the next one. Refresh, increment, first snapshot, refresh
  within the same second, second snapshot: the count of "fuck" goes from 0 to 1 with
  no increment between the two snapshots.
\<close>

theorem snapshot_changes_without_increment:
  "word_counts (counter_obj
      (update_counts 1500000
         (app_process_audio [Clips [Recognized ''what the fuck'']]
            (update_counts 1000000 (app_init ''asmongold'' ''fuck'' 0)))))
     = word_counts (counter_obj
         (app_process_audio [Clips [Recognized ''what the fuck'']]
            (update_counts 1000000 (app_init ''asmongold'' ''fuck'' 0))))
   \<and> fst (snd (get_counts
         (app_process_audio [Clips [Recognized ''what the fuck'']]
            (update_counts 1000000 (app_init ''asmongold'' ''fuck'' 0))))) ''fuck'' = Some 0
   \<and> fst (snd (get_counts
         (update_counts 1500000
            (app_process_audio [Clips [Recognized ''what the fuck'']]
               (update_counts 1000000 (app_init ''asmongold'' ''fuck'' 0)))))) ''fuck'' = Some 1
   \<and> get_counts
        (update_counts 1500000
           (app_process_audio [Clips [Recognized ''what the fuck'']]
              (update_counts 1000000 (app_init ''asmongold'' ''fuck'' 0))))
      \<noteq> get_counts
          (app_process_audio [Clips [Recognized ''what the fuck'']]
             (update_counts 1000000 (app_init ''asmongold'' ''fuck'' 0)))"
proof -
  let ?a0 = "app_init ''asmongold'' ''fuck'' 0"
  let ?a1 = "app_process_audio [Clips [Recognized ''what the fuck'']] (update_counts 1000000 ?a0)"
  have tw0: "target_words (counter_obj ?a0) = [''fuck'']"
    by (simp add: app_init_def init_def lower_fuck)
  have c0: "counter_get (word_counts (counter_obj ?a0)) ''fuck'' = 0"
    by (simp add: app_init_def init_def counter_get_def)
  have tw1: "target_words (counter_obj ?a1) = [''fuck'']"
    using tw0 by (simp add: app_process_audio_def counter_obj_update_counts process_audio_keys)
  have c1: "counter_get (word_counts (counter_obj ?a1)) ''fuck'' = 1"
    using tw0 c0
    by (simp add: app_process_audio_def counter_obj_update_counts process_audio_def
        word_counts_check_words counter_get_add lower_what_the_fuck one_match_what_the_fuck
        del: check_words.simps)
  have g1: "g_word_counts ?a1 ''fuck'' = Some 0"
    using tw0 c0 by (simp add: app_process_audio_def update_counts_def publish_words_eq)
  have g2: "g_word_counts (update_counts 1500000 ?a1) ''fuck'' = Some 1"
    using tw1 c1 by (simp only: update_counts_def publish_words_eq) simp
  from g1 g2 have "g_word_counts (update_counts 1500000 ?a1) \<noteq> g_word_counts ?a1"
    by auto
  with g1 g2 show ?thesis
    by (simp add: get_counts_def counter_obj_update_counts)
qed

text \<open>
  C9, amended: a snapshot returns what the latest refresh published. After any
  refreshes with no increment among them, the snapshot holds for every target word
  the count of the counter object (for other keys what was published before) and the
  elapsed time of the last of those refreshes. It is equal to the snapshot taken
  before those refreshes exactly when that earlier snapshot already had the counter's
  count for every target word and its elapsed time is that of the last refresh; and two
  clock readings give the same elapsed time exactly when they fall in the same whole
  second of the elapsed time, whole days left out.
\<close>

theorem snapshot_after_refreshes:
  assumes "ts \<noteq> []"
  shows "counter_obj (refreshes ts a) = counter_obj a
     \<and> get_counts (refreshes ts a)
        = (twitch_channel a,
           (\<lambda>k. if k \<in> set (target_words (counter_obj a))
                then Some (counter_get (word_counts (counter_obj a)) k)
                else g_word_counts a k),
           get_elapsed_time (counter_obj a) (last ts))
     \<and> (get_counts (refreshes ts a) = get_counts a
          \<longleftrightarrow> (\<forall>w\<in>set (target_words (counter_obj a)).
                 g_word_counts a w = Some (counter_get (word_counts (counter_obj a)) w))
              \<and> g_running_time a = get_elapsed_time (counter_obj a) (last ts))
     \<and> (get_elapsed_time (counter_obj a) t2 = get_elapsed_time (counter_obj a) t1
          \<longleftrightarrow> (t2 - start_time (counter_obj a)) div 1000000 mod 86400
              = (t1 - start_time (counter_obj a)) div 1000000 mod 86400)"
proof -
  let ?tw = "target_words (counter_obj a)"
  let ?c = "word_counts (counter_obj a)"
  note r = refreshes_last [OF assms, of a]
  have 1: "counter_obj (refreshes ts a) = counter_obj a"
    by (simp add: r)
  have 2: "get_counts (refreshes ts a)
      = (twitch_channel a, publish_words ?tw ?c (g_word_counts a),
         get_elapsed_time (counter_obj a) (last ts))"
    by (simp add: r get_counts_def)
  have 3: "get_counts (refreshes ts a) = get_counts a
      \<longleftrightarrow> (\<forall>w\<in>set ?tw. g_word_counts a w = Some (counter_get ?c w))
          \<and> g_running_time a = get_elapsed_time (counter_obj a) (last ts)"
    unfolding 2 by (auto simp: get_counts_def publish_words_fixed)
  from 1 2 3 elapsed_same_second [of "counter_obj a" t2 t1] show ?thesis
    by (simp only: publish_words_eq)
qed

theorem snapshot_after_refreshes_witness:
  "[1200000, 1500000] \<noteq> ([] :: int list)
   \<and> get_counts (refreshes [1200000, 1500000] (update_counts 1000000 (app_init ''asmongold'' ''fuck'' 0)))
      = get_counts (update_counts 1000000 (app_init ''asmongold'' ''fuck'' 0))
   \<and> get_counts (refreshes [1500000, 2000000] (update_counts 1000000 (app_init ''asmongold'' ''fuck'' 0)))
      \<noteq> get_counts (update_counts 1000000 (app_init ''asmongold'' ''fuck'' 0))"
proof -
  let ?a = "update_counts 1000000 (app_init ''asmongold'' ''fuck'' 0)"
  let ?E = "get_elapsed_time (counter_obj ?a)"
  let ?up = "\<forall>w\<in>set (target_words (counter_obj ?a)).
      g_word_counts ?a w = Some (counter_get (word_counts (counter_obj ?a)) w)"
  have h: "[1200000, 1500000] \<noteq> ([] :: int list)" and h': "[1500000, 2000000] \<noteq> ([] :: int list)"
    by simp_all
  have s: "start_time (counter_obj ?a) = 0"
    by (simp add: counter_obj_update_counts) (simp add: app_init_def init_def)
  have up: ?up
    by (simp add: update_counts_def publish_words_eq)
  have rt: "g_running_time ?a = ?E 1000000"
    by (simp add: update_counts_def)
  from snapshot_after_refreshes [OF h, of ?a 1500000 1000000]
  have "?E 1500000 = ?E 1000000
      \<longleftrightarrow> (1500000 - start_time (counter_obj ?a)) div 1000000 mod 86400
          = (1000000 - start_time (counter_obj ?a)) div 1000000 mod 86400"
    by blast
  then have same: "?E 1500000 = ?E 1000000"
    by (simp add: s)
  from snapshot_after_refreshes [OF h, of ?a 2000000 1000000]
  have "?E 2000000 = ?E 1000000
      \<longleftrightarrow> (2000000 - start_time (counter_obj ?a)) div 1000000 mod 86400
          = (1000000 - start_time (counter_obj ?a)) div 1000000 mod 86400"
    by blast
  then have diff: "?E 2000000 \<noteq> ?E 1000000"
    by (simp add: s)
  from snapshot_after_refreshes [OF h, of ?a 0 0]
  have "get_counts (refreshes [1200000, 1500000] ?a) = get_counts ?a
      \<longleftrightarrow> ?up \<and> g_running_time ?a = ?E (last [1200000, 1500000])"
    by blast
  moreover have "g_running_time ?a = ?E (last [1200000, 1500000])"
    using rt same by simp
  ultimately have A: "get_counts (refreshes [1200000, 1500000] ?a) = get_counts ?a"
    using up by blast
  from snapshot_after_refreshes [OF h', of ?a 0 0]
  have "get_counts (refreshes [1500000, 2000000] ?a) = get_counts ?a
      \<longleftrightarrow> ?up \<and> g_running_time ?a = ?E (last [1500000, 2000000])"
    by blast
  moreover have "g_running_time ?a \<noteq> ?E (last [1500000, 2000000])"
    using rt diff by simp
  ultimately have B: "get_counts (refreshes [1500000, 2000000] ?a) \<noteq> get_counts ?a"
    by blast
  from h A B show ?thesis
    by (intro conjI)
qed

section \<open>The end of the stream\<close>

lemma upt_Suc_shift: "[0..<Suc m] = 0 # map Suc [0..<m]"
  by (simp add: upt_conv_Cons map_Suc_upt del: upt_Suc)

lemma div_add_window: "0 < n \<Longrightarrow> (n + m) div n = Suc (m div n)" for n m :: nat
  using div_add_self1 [of n m] by simp

lemma drop_window: "length w = n \<Longrightarrow> drop (Suc k * n) (w @ rs) = drop (k * n) rs"
  by simp

lemma complete_windows_step:
  assumes "length w = n" "0 < n"
  shows "complete_windows n (w @ rs) = concat w # complete_windows n rs"
proof -
  have d: "length (w @ rs) div n = Suc (length rs div n)"
    using assms div_add_window [of n "length rs"] by simp
  have f: "concat (take n (drop (Suc k * n) (w @ rs))) = concat (take n (drop (k * n) rs))" for k
    using assms by simp
  show ?thesis
    unfolding complete_windows_def d upt_Suc_shift
    using assms f by (simp add: comp_def del: mult_Suc)
qed

lemma stream_loop_stop:
  "(case rest of [] \<Rightarrow> True | d # ds \<Rightarrow> d = []) \<Longrightarrow> stream_loop n rest frames queue = (frames, queue)"
  by (cases rest) simp_all

lemma stream_loop_windows:
  assumes "0 < n" and "case rest of [] \<Rightarrow> True | d # ds \<Rightarrow> d = []"
  shows "length frames < n \<Longrightarrow> \<forall>d\<in>set rs. d \<noteq> [] \<Longrightarrow>
     stream_loop n (rs @ rest) frames queue
     = (drop ((length frames + length rs) div n * n) (frames @ rs),
        queue @ complete_windows n (frames @ rs))"
proof (induction rs arbitrary: frames queue)
  case Nil
  then show ?case
    using assms by (simp add: stream_loop_stop complete_windows_def)
next
  case (Cons d rs)
  have d: "d \<noteq> []" using Cons.prems by simp
  have rs: "\<forall>d\<in>set rs. d \<noteq> []" using Cons.prems by simp
  show ?case
  proof (cases "n \<le> length (frames @ [d])")
    case True
    then have len: "length (frames @ [d]) = n"
      using Cons.prems(1) by simp
    have "stream_loop n ((d # rs) @ rest) frames queue
        = stream_loop n (rs @ rest) [] (queue @ [concat (frames @ [d])])"
      using d True by (simp add: Let_def)
    also have "\<dots> = (drop (length rs div n * n) rs,
        (queue @ [concat (frames @ [d])]) @ complete_windows n rs)"
      using Cons.IH [of "[]" "queue @ [concat (frames @ [d])]"] assms(1) rs by simp
    also have "\<dots> = (drop ((length frames + length (d # rs)) div n * n) (frames @ d # rs),
        queue @ complete_windows n (frames @ d # rs))"
    proof -
      have "length frames + length (d # rs) = n + length rs"
        using len by simp
      then have "(length frames + length (d # rs)) div n = Suc (length rs div n)"
        using assms(1) by (simp only: div_add_window)
      moreover have "drop (Suc (length rs div n) * n) ((frames @ [d]) @ rs) = drop (length rs div n * n) rs"
        using len by (rule drop_window)
      moreover have "complete_windows n ((frames @ [d]) @ rs) = concat (frames @ [d]) # complete_windows n rs"
        using len assms(1) by (rule complete_windows_step)
      ultimately show ?thesis by simp
    qed
    finally show ?thesis .
  next
    case False
    then have "stream_loop n ((d # rs) @ rest) frames queue
        = stream_loop n (rs @ rest) (frames @ [d]) queue"
      using d by (simp add: Let_def)
    also have "\<dots> = (drop ((length (frames @ [d]) + length rs) div n * n) ((frames @ [d]) @ rs),
        queue @ complete_windows n ((frames @ [d]) @ rs))"
      using Cons.IH [of "frames @ [d]" queue] False rs by simp
    finally show ?thesis by simp
  qed
qed

lemma concat_windows:
  "m * n \<le> length rs \<Longrightarrow>
   concat (map (\<lambda>k. concat (take n (drop (k * n) rs))) [0..<m]) = concat (take (m * n) rs)"
proof (induction m)
  case 0
  then show ?case by simp
next
  case (Suc m)
  have "Suc m * n = m * n + n"
    by simp
  then have "take (Suc m * n) rs = take (m * n) rs @ take n (drop (m * n) rs)"
    by (simp only: take_add)
  with Suc show ?case by simp
qed

lemma concat_complete_windows:
  "concat (complete_windows n rs) = concat (take (length rs div n * n) rs)"
  unfolding complete_windows_def by (rule concat_windows) simp


lemma default_chunks_per_recording: "chunks_per_recording (init ch tw q now) = 78"
  by (simp add: chunks_per_recording_def init_def)

text \<open>
  C3, as stated: at the end of the stream the frames accumulated so far are packaged
  into a last, shorter unit and enqueued, and no captured byte is lost. The loop
  leaves by \<open>break\<close> on the empty read and nothing follows it that looks at
  \<open>frames\<close>: after one read of three bytes and the end of the stream, the three bytes
  are in \<open>frames\<close> and the queue is empty.
\<close>

theorem partial_window_lost_at_end_of_stream:
  "chunks_per_recording (init ''asmongold'' (Some [''fuck'']) ''audio_only'' 0) = 78
   \<and> stream_loop 78 [[1, 2, 3], []] [] [] = ([[1, 2, 3]], [])
   \<and> stream_audio (init ''asmongold'' (Some [''fuck'']) ''audio_only'' 0) (Some [[1, 2, 3], []])
      = Inr (init ''asmongold'' (Some [''fuck'']) ''audio_only'' 0)
   \<and> audio_queue (init ''asmongold'' (Some [''fuck'']) ''audio_only'' 0) = []"
  by (simp add: stream_audio_def default_chunks_per_recording) (simp add: init_def)

text \<open>
  C3, amended: when the stream ends after some non-empty reads, the units enqueued
  are exactly the complete windows of \<open>chunks_per_recording\<close> reads each, in order;
  their bytes are the bytes of the reads in those windows, and the reads after the last
  complete window (fewer than \<open>chunks_per_recording\<close>) are not enqueued.
\<close>

theorem complete_windows_enqueued:
  assumes "0 < chunks_per_recording st" and "\<forall>d\<in>set rs. d \<noteq> []"
  shows "stream_audio st (Some (rs @ [] # later))
       = Inr (st\<lparr>audio_queue := audio_queue st @ complete_windows (chunks_per_recording st) rs\<rparr>)
     \<and> length (complete_windows (chunks_per_recording st) rs) = length rs div chunks_per_recording st
     \<and> concat (complete_windows (chunks_per_recording st) rs)
       = concat (take (length rs div chunks_per_recording st * chunks_per_recording st) rs)"
proof -
  have "stream_loop (chunks_per_recording st) (rs @ [] # later) [] (audio_queue st)
      = (drop ((length ([]::bytes list) + length rs) div chunks_per_recording st * chunks_per_recording st) ([] @ rs),
         audio_queue st @ complete_windows (chunks_per_recording st) ([] @ rs))"
    using assms by (intro stream_loop_windows) simp_all
  then show ?thesis
    by (simp add: stream_audio_def concat_complete_windows) (simp add: complete_windows_def)
qed

theorem complete_windows_enqueued_witness:
  "0 < chunks_per_recording (init ''asmongold'' (Some [''fuck'']) ''audio_only'' 0)
   \<and> stream_audio (init ''asmongold'' (Some [''fuck'']) ''audio_only'' 0)
        (Some [[1, 2, 3], [4], []])
      = Inr (init ''asmongold'' (Some [''fuck'']) ''audio_only'' 0)
   \<and> stream_audio (init ''asmongold'' (Some [''fuck'']) ''audio_only'' 0)
        (Some (replicate 78 [7] @ [[8], []]))
      = Inr ((init ''asmongold'' (Some [''fuck'']) ''audio_only'' 0)
               \<lparr>audio_queue := [replicate 78 7]\<rparr>)"
proof -
  let ?st = "init ''asmongold'' (Some [''fuck'']) ''audio_only'' 0"
  have h1: "0 < chunks_per_recording ?st"
    by (simp add: default_chunks_per_recording)
  have q: "audio_queue ?st = []"
    by (simp add: init_def)
  have h2: "\<forall>d\<in>set [[1, 2, 3], [4 :: 8 word]]. d \<noteq> []"
    by simp
  have w: "complete_windows 78 [[1, 2, 3], [4 :: 8 word]] = []"
    by (simp add: complete_windows_def)
  have same: "?st\<lparr>audio_queue := []\<rparr> = ?st"
    by (simp add: init_def)
  have a: "stream_audio ?st (Some [[1, 2, 3], [4], []]) = Inr ?st"
    using complete_windows_enqueued [OF h1 h2, of "[]"] w q same
    by (simp add: default_chunks_per_recording)
  have h3: "\<forall>d\<in>set (replicate 78 [7 :: 8 word] @ [[8]]). d \<noteq> []"
    by auto
  have "complete_windows 78 (replicate 78 [7 :: 8 word] @ [[8]])
      = concat (replicate 78 [7]) # complete_windows 78 [[8]]"
    by (rule complete_windows_step) simp_all
  moreover have "concat (replicate 78 [7 :: 8 word]) = replicate 78 7"
    by (simp add: concat_replicate_trivial)
  moreover have "complete_windows 78 [[8 :: 8 word]] = []"
    by (simp add: complete_windows_def)
  ultimately have b: "stream_audio ?st (Some (replicate 78 [7] @ [[8], []]))
      = Inr (?st\<lparr>audio_queue := [replicate 78 7]\<rparr>)"
    using complete_windows_enqueued [OF h1 h3, of "[]"] q
    by (simp add: default_chunks_per_recording)
  from h1 a b show ?thesis
    by (intro conjI)
qed

section \<open>The count of the matcher and the whole-word occurrences\<close>

lemma take_eq_length:
  assumes "take (length w) s = w"
  shows "length w \<le> length s"
proof -
  have "length (take (length w) s) = length w"
    using assms by simp
  then show ?thesis
    by simp
qed

lemma next_char_drop: "next_char (drop n s) = right_neighbour s n"
proof (cases "n < length s")
  case True
  then have "drop n s = s ! n # drop (Suc n) s"
    by (simp add: Cons_nth_drop_Suc)
  with True show ?thesis
    by (simp add: next_char_def right_neighbour_def)
next
  case False
  then show ?thesis
    by (simp add: next_char_def right_neighbour_def)
qed

lemma match_here_whole_word:
  assumes "w \<noteq> []" and "\<forall>c\<in>set w. is_word_char c"
  shows "match_here w prev s = whole_word_after prev w s 0"
proof (cases "take (length w) s = w")
  case False
  then show ?thesis
    by (simp add: match_here_def whole_word_after_def occurs_at_def)
next
  case True
  with assms(1) obtain c cs where s: "s = c # cs"
    by (cases s) auto
  from True assms(1) s have "c = hd w"
    by (cases w) auto
  with assms have c: "is_word_char c"
    by simp
  have l: "is_word_char (last w)"
    using assms by simp
  from True have "length w \<le> length s"
    by (rule take_eq_length)
  moreover have "next_char s = Some c"
    using s by (simp add: next_char_def)
  moreover note next_char_drop [of "length w" s]
  ultimately show ?thesis
    using True c l assms(1)
    by (simp add: match_here_def whole_word_after_def occurs_at_def word_boundary_def)
qed

lemma whole_word_after_shift:
  "whole_word_after prev w (c # cs) (Suc i) = whole_word_after (Some c) w cs i"
  by (simp add: whole_word_after_def occurs_at_def left_neighbour_def right_neighbour_def nth_Cons')

lemma count_after_Cons:
  "count_after prev w (c # cs)
   = (if whole_word_after prev w (c # cs) 0 then 1 else 0) + count_after (Some c) w cs"
proof -
  have "filter (whole_word_after prev w (c # cs)) (map Suc [0..<Suc (length cs)])
      = map Suc (filter (whole_word_after (Some c) w cs) [0..<Suc (length cs)])"
    by (simp add: filter_map comp_def whole_word_after_shift)
  then show ?thesis
    unfolding count_after_def
    by (simp add: upt_Suc_shift [of "Suc (length cs)"] del: upt_Suc)
qed

lemma count_after_Nil: "w \<noteq> [] \<Longrightarrow> count_after prev w [] = 0"
  by (simp add: count_after_def whole_word_after_def occurs_at_def)

lemma no_whole_word_after_word_char:
  "is_word_char p \<Longrightarrow> \<not> whole_word_after (Some p) w s 0"
  by (simp add: whole_word_after_def)

lemma count_after_skip_word_chars:
  "w \<noteq> [] \<Longrightarrow> \<forall>c\<in>set (p # u). is_word_char c \<Longrightarrow>
   count_after (Some p) w (u @ rest) = count_after (Some (last (p # u))) w rest"
proof (induction u arbitrary: p)
  case Nil
  then show ?case by simp
next
  case (Cons x u)
  have "count_after (Some p) w ((x # u) @ rest) = count_after (Some x) w (u @ rest)"
    using Cons.prems by (simp add: count_after_Cons no_whole_word_after_word_char)
  also have "\<dots> = count_after (Some (last (x # u))) w rest"
    using Cons.prems by (intro Cons.IH) simp_all
  finally show ?case by simp
qed

lemma findall_count_whole_words:
  assumes "w \<noteq> []" and "\<forall>c\<in>set w. is_word_char c"
  shows "findall_count w prev s = count_after prev w s"
  using assms
proof (induction w prev s rule: findall_count.induct)
  case (1 w prev)
  then show ?case
    by (simp add: match_here_whole_word count_after_Nil whole_word_after_def occurs_at_def)
next
  case (2 w prev c cs)
  note m = match_here_whole_word [OF "2.prems", of prev "c # cs"]
  show ?case
  proof (cases "match_here w prev (c # cs)")
    case False
    with "2.IH"(3) "2.prems" m show ?thesis
      by (simp add: count_after_Cons)
  next
    case True
    then have tk: "take (length w) (c # cs) = w"
      by (simp add: match_here_def)
    obtain u where w: "w = c # u"
      using tk "2.prems"(1) by (cases w) auto
    have cs: "cs = u @ drop (length w) (c # cs)"
      using tk w by (metis append_take_drop_id list.inject append_Cons)
    have "findall_count w prev (c # cs)
        = Suc (count_after (Some (last w)) w (drop (length w) (c # cs)))"
      using True "2.IH"(2) "2.prems" by simp
    also have "count_after (Some (last w)) w (drop (length w) (c # cs))
        = count_after (Some c) w (u @ drop (length w) (c # cs))"
      using count_after_skip_word_chars [of w c u "drop (length w) (c # cs)"] "2.prems" w
      by simp
    also have "\<dots> = count_after (Some c) w cs"
      using cs by simp
    finally show ?thesis
      using True m by (simp add: count_after_Cons)
  qed
qed

lemma whole_word_after_None: "whole_word_after None w t i = whole_word_at w t i"
  by (simp add: whole_word_after_def whole_word_at_def left_neighbour_def)

lemma count_after_None: "count_after None w t = length (whole_word_positions w t)"
  unfolding count_after_def whole_word_positions_def
  by (simp only: whole_word_after_None [abs_def])

text \<open>
  C2, as stated: an occurrence of the word is counted exactly when no alphanumeric
  character is next to it on either side. In "fuck_you" the word stands at position 0
  with nothing before it and an underscore, which is not alphanumeric, after it; the
  pattern does not match there, since \<open>\b\<close> takes the underscore for a word character.
\<close>

theorem underscore_is_a_word_character:
  "count_matches ''fuck'' ''fuck_you'' = 0
   \<and> alnum_free_positions ''fuck'' ''fuck_you'' = [0]
   \<and> count_matches ''fuck'' ''fuck_you'' \<noteq> length (alnum_free_positions ''fuck'' ''fuck_you'')"
  by code_simp

text \<open>
  C2, amended: for every text and every non-empty target word made of word characters
  (letters, digits, underscore), the count is the number of occurrences of the word
  that have no word character (letter, digit or underscore) next to them on either
  side; in particular it is 0 for a text in which every occurrence of the word has a
  word character next to it, as "fuck" has inside "fucker".
\<close>

theorem whole_word_count:
  assumes "w \<noteq> []" and "\<forall>c\<in>set w. is_word_char c"
  shows "count_matches w t = length (whole_word_positions w t)
     \<and> ((\<forall>i. occurs_at w t i \<longrightarrow>
            is_word_opt (left_neighbour t i) \<or> is_word_opt (right_neighbour t (i + length w)))
         \<longrightarrow> count_matches w t = 0)"
proof -
  have eq: "count_matches w t = length (whole_word_positions w t)"
    using assms by (simp add: count_matches_def findall_count_whole_words count_after_None)
  have "whole_word_positions w t = []"
    if "\<forall>i. occurs_at w t i \<longrightarrow>
            is_word_opt (left_neighbour t i) \<or> is_word_opt (right_neighbour t (i + length w))"
    using that by (auto simp: whole_word_positions_def whole_word_at_def filter_empty_conv)
  with eq show ?thesis
    by simp
qed

theorem whole_word_count_witness:
  "''fuck'' \<noteq> []
   \<and> count_matches ''fuck'' ''what the fuck! fucker fuck_ fuck'' = 2
   \<and> whole_word_positions ''fuck'' ''what the fuck! fucker fuck_ fuck'' = [9, 28]
   \<and> count_matches ''fuck'' ''fucker'' = 0"
proof -
  have h1: "''fuck'' \<noteq> []"
    by simp
  have h2: "\<forall>c\<in>set ''fuck''. is_word_char c"
    by (simp add: is_word_char_def)
  have p: "whole_word_positions ''fuck'' ''what the fuck! fucker fuck_ fuck'' = [9, 28]"
    by code_simp
  have a: "count_matches ''fuck'' ''what the fuck! fucker fuck_ fuck'' = 2"
    using whole_word_count [OF h1 h2, of "''what the fuck! fucker fuck_ fuck''"] p by simp
  have q: "\<forall>i. occurs_at ''fuck'' ''fucker'' i \<longrightarrow>
      is_word_opt (left_neighbour ''fucker'' i)
      \<or> is_word_opt (right_neighbour ''fucker'' (i + length ''fuck''))"
  proof (intro allI impI)
    fix i
    assume o: "occurs_at ''fuck'' ''fucker'' i"
    then have "i \<le> 2"
      by (simp add: occurs_at_def)
    then have "i = 0 \<or> i = 1 \<or> i = 2"
      by arith
    with o have "i = 0"
      by (auto simp: occurs_at_def numeral_2_eq_2)
    then show "is_word_opt (left_neighbour ''fucker'' i)
      \<or> is_word_opt (right_neighbour ''fucker'' (i + length ''fuck''))"
      by (simp add: right_neighbour_def is_word_char_def)
  qed
  have b: "count_matches ''fuck'' ''fucker'' = 0"
    using whole_word_count [OF h1 h2, of "''fucker''"] q by blast
  from h1 a p b show ?thesis
    by blast
qed

text \<open>
  Outside that case the count and the whole-word occurrences part ways. A word that
  ends in a character that is not a word character needs a word character right after
  it for \<open>\b\<close> to hold there; and of two overlapping occurrences of a word with a space
  inside only the first is found.
\<close>

lemma word_ending_in_symbol: "count_matches ''c++'' ''i love c++'' = 0 \<and> alnum_free_positions ''c++'' ''i love c++'' = [7]
  \<and> whole_word_positions ''c++'' ''i love c++'' = [7]"
  by code_simp

lemma overlapping_occurrences: "count_matches ''a a'' ''a a a'' = 1 \<and> whole_word_positions ''a a'' ''a a a'' = [0, 2]"
  by code_simp

section \<open>Target words without a whole-word occurrence\<close>






end
